theory Spec2Isabelle
  imports Main "HOL-Library.Word" "HOL-Library.Multiset"
begin

section \<open>Machine types and results\<close>

text \<open>
  \<open>size_t\<close> and \<open>jlong\<close> are 64 bits wide on the platforms HotSpot builds for. The
  cast \<open>(jlong)max_size\<close> keeps the bit pattern, so both are the same word type here.
\<close>

type_synonym size_t = "64 word"
type_synonym jlong = "64 word"

text \<open>
  What goes wrong in the C++ is a value of the model: a field read before any
  assignment, a pointer that addresses no object of its type, and the
  \<open>OutOfMemoryError\<close> that a \<open>CHECK\<close> propagates (fatal under \<open>EXCEPTION_MARK\<close>).
\<close>

datatype vm_error = Uninitialized_pointer | Wild_pointer | OutOfMemoryError

definition bindE :: "'e + 'a \<Rightarrow> ('a \<Rightarrow> 'e + 'b) \<Rightarrow> 'e + 'b" where
  "bindE m f = (case m of Inl e \<Rightarrow> Inl e | Inr x \<Rightarrow> f x)"

section \<open>gc/serial/cSpaceCounters.cpp\<close>

subsection \<open>The collaborators the file calls\<close>

text \<open>
  \<open>ContiguousSpace\<close> is declared outside the file. Of a space the counters read two
  numbers, the results of \<open>capacity()\<close> and \<open>used()\<close>; a space is the pair of them, and
  the spaces live in a store addressed by the \<open>ContiguousSpace*\<close> the counters keep, since
  a space changes between two updates.
\<close>

record contiguous_space =
  cs_capacity :: size_t
  cs_used :: size_t

text \<open>
  \<open>PerfData\<close> objects, as \<open>PerfDataManager\<close> creates them: a name space, a name, a unit,
  whether the value may change, and the value. The manager's list of all items is the
  store; a \<open>PerfVariable*\<close> is an index into it.
\<close>

datatype counter_ns = SUN_GC
datatype perf_units = U_None | U_Bytes | U_String
datatype perf_variability = V_Constant | V_Variable
datatype perf_value = PerfString string | PerfLong jlong

record perf_data =
  pd_ns :: counter_ns
  pd_name :: string
  pd_units :: perf_units
  pd_variability :: perf_variability
  pd_value :: perf_value

text \<open>
  The part of the VM the file touches: the flag \<open>UsePerfData\<close>, the spaces, and the
  perf data items with the room left for them (\<open>perf_limit\<close>: creating an item beyond it
  is the allocation failure that the \<open>CHECK\<close> after every \<open>create_\<close> call handles).
\<close>

record vm =
  UsePerfData :: bool
  spaces :: "nat \<rightharpoonup> contiguous_space"
  perf_items :: "perf_data list"
  perf_limit :: nat

text \<open>
  \<open>PerfDataManager::name_space\<close> and \<open>PerfDataManager::counter_name\<close> build strings; their
  code is outside the file, so they are parameters of the constructor's model.
\<close>

record perf_names =
  name_space :: "string \<Rightarrow> string \<Rightarrow> int \<Rightarrow> string"
  counter_name :: "string \<Rightarrow> string \<Rightarrow> string"

record generation_counters =
  gc_name_space :: string

definition create_perf :: "perf_data \<Rightarrow> vm \<Rightarrow> vm_error + (nat \<times> vm)" where
  "create_perf pd v =
     (if length (perf_items v) < perf_limit v
      then Inr (length (perf_items v), v\<lparr>perf_items := perf_items v @ [pd]\<rparr>)
      else Inl OutOfMemoryError)"

definition create_string_constant ::
  "counter_ns \<Rightarrow> string \<Rightarrow> string \<Rightarrow> vm \<Rightarrow> vm_error + (nat \<times> vm)" where
  "create_string_constant ns cname s v =
     create_perf \<lparr>pd_ns = ns, pd_name = cname, pd_units = U_String,
                  pd_variability = V_Constant, pd_value = PerfString s\<rparr> v"

definition create_constant ::
  "counter_ns \<Rightarrow> string \<Rightarrow> perf_units \<Rightarrow> jlong \<Rightarrow> vm \<Rightarrow> vm_error + (nat \<times> vm)" where
  "create_constant ns cname u ival v =
     create_perf \<lparr>pd_ns = ns, pd_name = cname, pd_units = u,
                  pd_variability = V_Constant, pd_value = PerfLong ival\<rparr> v"

definition create_variable ::
  "counter_ns \<Rightarrow> string \<Rightarrow> perf_units \<Rightarrow> jlong \<Rightarrow> vm \<Rightarrow> vm_error + (nat \<times> vm)" where
  "create_variable ns cname u ival v =
     create_perf \<lparr>pd_ns = ns, pd_name = cname, pd_units = u,
                  pd_variability = V_Variable, pd_value = PerfLong ival\<rparr> v"

text \<open>
  \<open>PerfVariable::set_value\<close> through a pointer: the pointer has to address a variable
  item; the item keeps everything but its value.
\<close>

definition set_value :: "nat \<Rightarrow> jlong \<Rightarrow> vm \<Rightarrow> vm_error + vm" where
  "set_value p x v =
     (if p < length (perf_items v) \<and> pd_variability (perf_items v ! p) = V_Variable
      then Inr (v\<lparr>perf_items := (perf_items v)[p := (perf_items v ! p)\<lparr>pd_value := PerfLong x\<rparr>]\<rparr>)
      else Inl Wild_pointer)"

subsection \<open>CSpaceCounters\<close>

text \<open>
  The object's fields. \<open>_space\<close> is set by the member initialiser; the other four are
  assigned only inside \<open>if (UsePerfData)\<close>, so each is \<open>None\<close> until then (the class
  gives them no default and \<open>CHeapObj\<close> does not clear memory).
\<close>

record cspace_counters =
  c_space :: nat
  c_name_space :: "string option"
  c_max_capacity :: "nat option"
  c_capacity :: "nat option"
  c_used :: "nat option"

definition space_capacity :: "cspace_counters \<Rightarrow> vm \<Rightarrow> vm_error + size_t" where
  "space_capacity this v =
     (case spaces v (c_space this) of None \<Rightarrow> Inl Wild_pointer | Some sp \<Rightarrow> Inr (cs_capacity sp))"

definition space_used :: "cspace_counters \<Rightarrow> vm \<Rightarrow> vm_error + size_t" where
  "space_used this v =
     (case spaces v (c_space this) of None \<Rightarrow> Inl Wild_pointer | Some sp \<Rightarrow> Inr (cs_used sp))"

text \<open>
  The constructor, statement by statement. Each \<open>CHECK\<close> leaves the constructor on a
  pending exception, which \<open>EXCEPTION_MARK\<close> turns into a fatal error: the result is
  \<open>Inl\<close> and no object is handed out.
\<close>

definition CSpaceCounters ::
  "perf_names \<Rightarrow> string \<Rightarrow> int \<Rightarrow> size_t \<Rightarrow> nat \<Rightarrow> generation_counters \<Rightarrow> vm
     \<Rightarrow> vm_error + (cspace_counters \<times> vm)" where
  "CSpaceCounters pn name ordinal max_size s gc v0 =
     (let this0 = \<lparr>c_space = s, c_name_space = None, c_max_capacity = None,
                    c_capacity = None, c_used = None\<rparr>
      in if UsePerfData v0 then
        (let cns = name_space pn (gc_name_space gc) ''space'' ordinal;
             this1 = this0\<lparr>c_name_space := Some cns\<rparr>
         in
         bindE (create_string_constant SUN_GC (counter_name pn cns ''name'') name v0) (\<lambda>(_, v1).
         bindE (create_variable SUN_GC (counter_name pn cns ''maxCapacity'') U_Bytes max_size v1) (\<lambda>(pm, v2).
         let this2 = this1\<lparr>c_max_capacity := Some pm\<rparr> in
         bindE (space_capacity this2 v2) (\<lambda>cap.
         bindE (create_variable SUN_GC (counter_name pn cns ''capacity'') U_Bytes cap v2) (\<lambda>(pc, v3).
         let this3 = this2\<lparr>c_capacity := Some pc\<rparr> in
         bindE (space_used this3 v3) (\<lambda>usd.
         bindE (create_variable SUN_GC (counter_name pn cns ''used'') U_Bytes usd v3) (\<lambda>(pu, v4).
         let this4 = this3\<lparr>c_used := Some pu\<rparr> in
         bindE (space_capacity this4 v4) (\<lambda>cap'.
         bindE (create_constant SUN_GC (counter_name pn cns ''initCapacity'') U_Bytes cap' v4) (\<lambda>(_, v5).
         Inr (this4, v5))))))))))
      else Inr (this0, v0))"

text \<open>
  \<open>_capacity->set_value(_space->capacity())\<close>: the argument is evaluated, then the call
  goes through the field.
\<close>

definition update_capacity :: "cspace_counters \<Rightarrow> vm \<Rightarrow> vm_error + vm" where
  "update_capacity this v =
     bindE (space_capacity this v) (\<lambda>x.
       case c_capacity this of None \<Rightarrow> Inl Uninitialized_pointer | Some p \<Rightarrow> set_value p x v)"

definition update_used :: "cspace_counters \<Rightarrow> vm \<Rightarrow> vm_error + vm" where
  "update_used this v =
     bindE (space_used this v) (\<lambda>x.
       case c_used this of None \<Rightarrow> Inl Uninitialized_pointer | Some p \<Rightarrow> set_value p x v)"

definition update_all :: "cspace_counters \<Rightarrow> vm \<Rightarrow> vm_error + vm" where
  "update_all this v = bindE (update_used this v) (update_capacity this)"

text \<open>Reading a variable's value through one of the pointer fields.\<close>

definition var_value :: "vm \<Rightarrow> nat option \<Rightarrow> jlong option" where
  "var_value v p =
     (case p of None \<Rightarrow> None
      | Some a \<Rightarrow>
          if a < length (perf_items v)
          then (case pd_value (perf_items v ! a) of PerfLong x \<Rightarrow> Some x | PerfString _ \<Rightarrow> None)
          else None)"

definition var_name :: "vm \<Rightarrow> nat option \<Rightarrow> string option" where
  "var_name v p =
     (case p of None \<Rightarrow> None
      | Some a \<Rightarrow> if a < length (perf_items v) then Some (pd_name (perf_items v ! a)) else None)"

text \<open>
  The state of an instance built with perf data enabled: the three variable fields are
  assigned, address three different variable items, and the space is allocated.
\<close>

definition counters_ok :: "cspace_counters \<Rightarrow> vm \<Rightarrow> bool" where
  "counters_ok this v =
     (case (c_max_capacity this, c_capacity this, c_used this) of
        (Some pm, Some pc, Some pu) \<Rightarrow>
          pm \<noteq> pc \<and> pm \<noteq> pu \<and> pc \<noteq> pu \<and>
          pm < length (perf_items v) \<and> pc < length (perf_items v) \<and> pu < length (perf_items v) \<and>
          pd_variability (perf_items v ! pm) = V_Variable \<and>
          pd_variability (perf_items v ! pc) = V_Variable \<and>
          pd_variability (perf_items v ! pu) = V_Variable \<and>
          spaces v (c_space this) \<noteq> None
      | _ \<Rightarrow> False)"

text \<open>
  A concrete VM with one space and room for eight perf data items, the instance the
  constructor builds in it with perf data enabled, and the VM some time later, when the
  space has filled up and grown.
\<close>

definition names0 :: perf_names where
  "names0 = \<lparr>name_space = (\<lambda>ns sub i. ns @ ''.'' @ sub), counter_name = (\<lambda>ns n. ns @ ''.'' @ n)\<rparr>"

definition vm0 :: "bool \<Rightarrow> vm" where
  "vm0 b = \<lparr>UsePerfData = b, spaces = [0 \<mapsto> \<lparr>cs_capacity = 4096, cs_used = 512\<rparr>],
            perf_items = [], perf_limit = 8\<rparr>"

definition gen0 :: generation_counters where
  "gen0 = \<lparr>gc_name_space = ''gen0''\<rparr>"

definition inst_on :: cspace_counters where
  "inst_on = \<lparr>c_space = 0, c_name_space = Some ''gen0.space'', c_max_capacity = Some 1,
               c_capacity = Some 2, c_used = Some 3\<rparr>"

definition inst_off :: cspace_counters where
  "inst_off = \<lparr>c_space = 0, c_name_space = None, c_max_capacity = None,
                c_capacity = None, c_used = None\<rparr>"

definition vm_on :: vm where
  "vm_on = \<lparr>UsePerfData = True, spaces = [0 \<mapsto> \<lparr>cs_capacity = 4096, cs_used = 512\<rparr>],
     perf_items =
       [\<lparr>pd_ns = SUN_GC, pd_name = ''gen0.space.name'', pd_units = U_String,
         pd_variability = V_Constant, pd_value = PerfString ''eden''\<rparr>,
        \<lparr>pd_ns = SUN_GC, pd_name = ''gen0.space.maxCapacity'', pd_units = U_Bytes,
         pd_variability = V_Variable, pd_value = PerfLong 8192\<rparr>,
        \<lparr>pd_ns = SUN_GC, pd_name = ''gen0.space.capacity'', pd_units = U_Bytes,
         pd_variability = V_Variable, pd_value = PerfLong 4096\<rparr>,
        \<lparr>pd_ns = SUN_GC, pd_name = ''gen0.space.used'', pd_units = U_Bytes,
         pd_variability = V_Variable, pd_value = PerfLong 512\<rparr>,
        \<lparr>pd_ns = SUN_GC, pd_name = ''gen0.space.initCapacity'', pd_units = U_Bytes,
         pd_variability = V_Constant, pd_value = PerfLong 4096\<rparr>],
     perf_limit = 8\<rparr>"

definition space_later :: contiguous_space where
  "space_later = \<lparr>cs_capacity = 6144, cs_used = 1024\<rparr>"

definition vm_later :: vm where
  "vm_later = vm_on\<lparr>spaces := [0 \<mapsto> space_later]\<rparr>"

section \<open>gc/g1/g1DirtyCardQueue.hpp\<close>

text \<open>
  The header declares the queue set, its fields and its operations; the bodies are in a
  file that is not part of the sources at hand. The records below follow the header's
  fields and the specification's data model, and each operation is written from the
  specification's description of it.
\<close>

subsection \<open>Buffers, statistics, queues\<close>

text \<open>
  Modelled from the spec: \<open>BufferNode\<close> (gc/shared/bufferNode.hpp is not among the
  sources). A node carries its \<open>C\<close> entries and an index; the entries at positions
  \<open>[index, C)\<close> are the live card pointers. The capacity is the number of entries, so
  no read inside \<open>[0, C)\<close> is out of range. The intrusive \<open>next\<close> link is the order of
  the list that holds the node.
\<close>

type_synonym card_ptr = "64 word"

record buffer_node =
  bn_index :: nat
  bn_entries :: "card_ptr list"

definition capacity :: "buffer_node \<Rightarrow> nat" where
  "capacity node = length (bn_entries node)"

definition live_cards :: "buffer_node \<Rightarrow> card_ptr list" where
  "live_cards node = drop (bn_index node) (bn_entries node)"

text \<open>
  Modelled from the spec: \<open>G1ConcurrentRefineStats\<close> (g1ConcurrentRefineStats.hpp is not
  among the sources): counts of cards refined, buffers refined and yields observed, and
  the time spent refining.
\<close>

record refine_stats =
  refined_cards :: nat
  refined_buffers :: nat
  yields :: nat
  refinement_time :: nat

definition zero_stats :: refine_stats where
  "zero_stats = \<lparr>refined_cards = 0, refined_buffers = 0, yields = 0, refinement_time = 0\<rparr>"

text \<open>
  A thread's \<open>G1DirtyCardQueue\<close>: the \<open>PtrQueue\<close> part owns at most one buffer, and
  \<open>_refinement_stats\<close> points to the thread's statistics.
\<close>

record dirty_card_queue =
  dq_buffer :: "buffer_node option"
  dq_stats :: refine_stats

text \<open>
  \<open>PausedBuffers::PausedList\<close>: the buffers paused for one safepoint (\<open>_head\<close> to
  \<open>_tail\<close>) and that safepoint's id.
\<close>

record paused_list =
  pl_safepoint_id :: nat
  pl_nodes :: "buffer_node list"

text \<open>
  The fields of \<open>G1DirtyCardQueueSet\<close> as the header declares them: \<open>_num_cards\<close>,
  \<open>_mutator_refinement_threshold\<close>, \<open>_completed\<close>, \<open>_paused\<close> (its \<open>_plist\<close>) and the
  two global statistics records; \<open>_free_ids\<close> is left out, no operation below claims
  an id. With them goes what the operations reach outside the object: the free list of
  the buffer allocator, the attached threads with their queues, and whether the VM is at
  a safepoint.
\<close>

record queue_set =
  num_cards :: size_t
  mutator_refinement_threshold :: size_t
  completed :: "buffer_node list"
  paused :: "paused_list option"
  concatenated_refinement_stats :: refine_stats
  detached_refinement_stats :: refine_stats
  free_list :: "buffer_node list"
  threads :: "(nat \<times> dirty_card_queue) list"
  at_safepoint :: bool

subsection \<open>The refinement loop\<close>

text \<open>
  Modelled from the spec: the loop inside \<open>refine_buffer\<close> (the body is in
  g1DirtyCardQueue.cpp, not among the sources). It iterates the entries from the index
  to \<open>C - 1\<close> and hands each to the card refinement hook; between two entries it polls
  the yield signal, and on a yield it stops with the position of the first unprocessed
  entry. The hook is a parameter, a function on whatever the remembered set layer keeps;
  \<open>should_yield k\<close> is the answer the \<open>k\<close>-th poll of this call gets. The result is the
  new index, whether the buffer was completed, and the hook's state.
\<close>

function refine_entries ::
  "(card_ptr \<Rightarrow> 'r \<Rightarrow> 'r) \<Rightarrow> (nat \<Rightarrow> bool) \<Rightarrow> buffer_node \<Rightarrow> nat \<Rightarrow> nat \<Rightarrow> 'r
     \<Rightarrow> nat \<times> bool \<times> 'r" where
  "refine_entries hook should_yield node i k r =
     (if i < capacity node then
        (let r' = hook (bn_entries node ! i) r in
         if i + 1 < capacity node then
           (if should_yield k then (i + 1, False, r')
            else refine_entries hook should_yield node (i + 1) (k + 1) r')
         else (capacity node, True, r'))
      else (capacity node, True, r))"
  by pat_completeness auto
termination
  by (relation "measure (\<lambda>(hook, should_yield, node, i, k, r). capacity node - i)") auto

declare refine_entries.simps [simp del]

text \<open>
  Modelled from the spec: \<open>G1DirtyCardQueueSet::refine_buffer\<close> (declared in the header,
  body not among the sources). It runs the loop from the node's index, stores the new
  index in the node, adds the cards processed and the elapsed time (a clock difference,
  given as \<open>elapsed\<close>) to the statistics, and returns whether the whole buffer was
  processed.
\<close>

definition refine_buffer ::
  "(nat \<Rightarrow> card_ptr \<Rightarrow> 'r \<Rightarrow> 'r) \<Rightarrow> (nat \<Rightarrow> bool) \<Rightarrow> nat \<Rightarrow>
     buffer_node \<Rightarrow> nat \<Rightarrow> refine_stats \<Rightarrow> 'r \<Rightarrow> bool \<times> buffer_node \<times> refine_stats \<times> 'r" where
  "refine_buffer hook should_yield elapsed node worker_id stats r =
     (case refine_entries (hook worker_id) should_yield node (bn_index node) 0 r of
        (j, fully_processed, r') \<Rightarrow>
          (fully_processed, node\<lparr>bn_index := j\<rparr>,
           stats\<lparr>refined_cards := refined_cards stats + (j - bn_index node),
                 refinement_time := refinement_time stats + elapsed\<rparr>,
           r'))"

subsection \<open>Abandoning the logs\<close>

text \<open>
  Modelled from the spec: \<open>BufferNode::Allocator::release\<close> (not among the sources): the
  node goes back to the free list.
\<close>

definition release :: "buffer_node \<Rightarrow> queue_set \<Rightarrow> queue_set" where
  "release node s = s\<lparr>free_list := node # free_list s\<rparr>"

text \<open>
  Modelled from the spec: \<open>PausedBuffers::take_all\<close> (body not among the sources):
  detach whatever paused list exists and return its buffers.
\<close>

definition take_all :: "queue_set \<Rightarrow> buffer_node list \<times> queue_set" where
  "take_all s =
     (case paused s of None \<Rightarrow> ([], s) | Some pl \<Rightarrow> (pl_nodes pl, s\<lparr>paused := None\<rparr>))"

text \<open>
  Modelled from the spec: \<open>enqueue_paused_buffers_aux\<close> and \<open>enqueue_all_paused_buffers\<close>
  (bodies not among the sources): the buffers taken from the paused list are spliced
  onto the tail of the completed queue.
\<close>

definition enqueue_paused_buffers_aux :: "buffer_node list \<Rightarrow> queue_set \<Rightarrow> queue_set" where
  "enqueue_paused_buffers_aux nodes s = s\<lparr>completed := completed s @ nodes\<rparr>"

definition enqueue_all_paused_buffers :: "queue_set \<Rightarrow> queue_set" where
  "enqueue_all_paused_buffers s =
     (case take_all s of (nodes, s') \<Rightarrow> enqueue_paused_buffers_aux nodes s')"

text \<open>
  Modelled from the spec: \<open>take_all_completed_buffers\<close> (body not among the sources): it
  drains the paused buffers and the completed queue into one list, which leaves with the
  current card count; the counter restarts at zero.
\<close>

definition take_all_completed_buffers ::
  "queue_set \<Rightarrow> (buffer_node list \<times> size_t) \<times> queue_set" where
  "take_all_completed_buffers s =
     (let s1 = enqueue_all_paused_buffers s
      in ((completed s1, num_cards s1), s1\<lparr>completed := [], num_cards := 0\<rparr>))"

text \<open>
  Modelled from the spec: \<open>abandon_completed_buffers\<close> (body not among the sources):
  every buffer taken is returned to the allocator, one after the other.
\<close>

definition abandon_completed_buffers :: "queue_set \<Rightarrow> queue_set" where
  "abandon_completed_buffers s =
     (case take_all_completed_buffers s of ((nodes, n), s') \<Rightarrow> fold release nodes s')"

text \<open>
  Modelled from the spec: the walk over the attached threads in
  \<open>abandon_logs_and_stats\<close> (body not among the sources): a thread's partial buffer, if
  it has one, is returned to the allocator, the thread is left without a buffer, and its
  statistics are reset.
\<close>

fun abandon_thread_logs ::
  "(nat \<times> dirty_card_queue) list \<Rightarrow> buffer_node list
     \<Rightarrow> (nat \<times> dirty_card_queue) list \<times> buffer_node list" where
  "abandon_thread_logs [] free = ([], free)"
| "abandon_thread_logs ((t, q) # ts) free =
     (case abandon_thread_logs ts (case dq_buffer q of None \<Rightarrow> free | Some node \<Rightarrow> node # free) of
        (ts', free') \<Rightarrow> ((t, q\<lparr>dq_buffer := None, dq_stats := zero_stats\<rparr>) # ts', free'))"

text \<open>
  Modelled from the spec: \<open>G1DirtyCardQueueSet::abandon_logs_and_stats\<close> (declared in the
  header with the precondition "at safepoint", body not among the sources). Outside a
  safepoint the precondition fails and there is no result. At one, the threads' partial
  buffers, the paused buffers and the completed buffers are returned to the allocator
  and all statistics are reset.
\<close>

definition abandon_logs_and_stats :: "queue_set \<Rightarrow> queue_set option" where
  "abandon_logs_and_stats s =
     (if at_safepoint s then
        (case abandon_thread_logs (threads s) (free_list s) of (ts, free) \<Rightarrow>
           let s1 = s\<lparr>threads := ts, free_list := free\<rparr>;
               s2 = abandon_completed_buffers s1
           in Some (s2\<lparr>concatenated_refinement_stats := zero_stats,
                        detached_refinement_stats := zero_stats\<rparr>))
      else None)"

text \<open>The buffers on the paused list and the partial buffers of the attached threads.\<close>

definition paused_nodes :: "queue_set \<Rightarrow> buffer_node list" where
  "paused_nodes s = (case paused s of None \<Rightarrow> [] | Some pl \<Rightarrow> pl_nodes pl)"

definition thread_buffers :: "queue_set \<Rightarrow> buffer_node list" where
  "thread_buffers s = List.map_filter (\<lambda>(t, q). dq_buffer q) (threads s)"

text \<open>
  A hook that records the cards it is given, two yield signals, and a buffer of four
  entries of which the last three are live.
\<close>

definition log_hook :: "nat \<Rightarrow> card_ptr \<Rightarrow> card_ptr list \<Rightarrow> card_ptr list" where
  "log_hook worker_id c log = log @ [c]"

definition yield_at :: "nat \<Rightarrow> nat \<Rightarrow> bool" where
  "yield_at n k = (k = n)"

definition never_yield :: "nat \<Rightarrow> bool" where
  "never_yield k = False"

definition node0 :: buffer_node where
  "node0 = \<lparr>bn_index = 1, bn_entries = [10, 11, 12, 13]\<rparr>"

text \<open>
  A queue set at a safepoint with one completed buffer, one paused buffer, a thread
  holding a partial buffer and a thread holding none.
\<close>

definition node_a :: buffer_node where
  "node_a = \<lparr>bn_index = 0, bn_entries = [1, 2]\<rparr>"

definition node_b :: buffer_node where
  "node_b = \<lparr>bn_index = 1, bn_entries = [3, 4]\<rparr>"

definition node_c :: buffer_node where
  "node_c = \<lparr>bn_index = 1, bn_entries = [5, 6]\<rparr>"

definition busy_stats :: refine_stats where
  "busy_stats = \<lparr>refined_cards = 7, refined_buffers = 2, yields = 1, refinement_time = 90\<rparr>"

definition qs0 :: queue_set where
  "qs0 = \<lparr>num_cards = 3, mutator_refinement_threshold = 100,
          completed = [node_a], paused = Some \<lparr>pl_safepoint_id = 4, pl_nodes = [node_b]\<rparr>,
          concatenated_refinement_stats = busy_stats, detached_refinement_stats = busy_stats,
          free_list = [],
          threads = [(1, \<lparr>dq_buffer = Some node_c, dq_stats = busy_stats\<rparr>),
                     (2, \<lparr>dq_buffer = None, dq_stats = zero_stats\<rparr>)],
          at_safepoint = True\<rparr>"

subsection \<open>Enqueueing, refining, safepoints\<close>

text \<open>
  Modelled from the spec: \<open>BufferNode::size\<close> (bufferNode.hpp is not among the
  sources): the number of live entries of a node, which is what \<open>num_cards\<close> counts.
\<close>

definition bn_size :: "buffer_node \<Rightarrow> nat" where
  "bn_size node = capacity node - bn_index node"

text \<open>
  Modelled from the spec: \<open>BufferNode::Allocator::allocate\<close> (not among the sources):
  a node from the free list, or a new one of the configured capacity \<open>C\<close> when the list is
  empty, handed out empty, that is with its index at its capacity. Raw storage is taken
  to be available; its exhaustion ends the process.
\<close>

definition allocate :: "nat \<Rightarrow> queue_set \<Rightarrow> buffer_node \<times> queue_set" where
  "allocate C s =
     (case free_list s of
        [] \<Rightarrow> (\<lparr>bn_index = C, bn_entries = replicate C 0\<rparr>, s)
      | node # rest \<Rightarrow> (node\<lparr>bn_index := capacity node\<rparr>, s\<lparr>free_list := rest\<rparr>))"

text \<open>
  Modelled from the spec: \<open>PausedBuffers::take_previous\<close> (body not among the
  sources). \<open>sid\<close> is the id of the next safepoint. A list whose id is smaller was made
  for a safepoint that has passed: it is detached and its buffers returned. Otherwise
  nothing is taken.
\<close>

definition take_previous :: "nat \<Rightarrow> queue_set \<Rightarrow> buffer_node list \<times> queue_set" where
  "take_previous sid s =
     (case paused s of
        None \<Rightarrow> ([], s)
      | Some pl \<Rightarrow> if pl_safepoint_id pl < sid then (pl_nodes pl, s\<lparr>paused := None\<rparr>) else ([], s))"

text \<open>
  Modelled from the spec: \<open>PausedBuffers::add\<close> (body not among the sources): install
  a list for the next safepoint if there is none, and prepend the node. The caller has to
  have taken the list of a previous safepoint away first; \<open>record_paused_buffer\<close> below
  does.
\<close>

definition paused_add :: "nat \<Rightarrow> buffer_node \<Rightarrow> queue_set \<Rightarrow> queue_set" where
  "paused_add sid node s =
     (case paused s of
        None \<Rightarrow> s\<lparr>paused := Some \<lparr>pl_safepoint_id = sid, pl_nodes = [node]\<rparr>\<rparr>
      | Some pl \<Rightarrow> s\<lparr>paused := Some (pl\<lparr>pl_nodes := node # pl_nodes pl\<rparr>)\<rparr>)"

text \<open>
  Modelled from the spec: \<open>enqueue_previous_paused_buffers\<close> (body not among the
  sources): the buffers paused for previous safepoints are spliced onto the completed
  queue.
\<close>

definition enqueue_previous_paused_buffers :: "nat \<Rightarrow> queue_set \<Rightarrow> queue_set" where
  "enqueue_previous_paused_buffers sid s =
     (case take_previous sid s of (nodes, s') \<Rightarrow> enqueue_paused_buffers_aux nodes s')"

text \<open>
  Modelled from the spec: \<open>record_paused_buffer\<close> (body not among the sources): after
  the buffers of previous safepoints have been moved back, the partially processed node is
  added to the list for the next safepoint. Its remaining cards are counted in
  \<open>num_cards\<close> again, which the header declares an upper bound on the cards in the
  completed and the paused buffers.
\<close>

definition record_paused_buffer :: "nat \<Rightarrow> buffer_node \<Rightarrow> queue_set \<Rightarrow> queue_set" where
  "record_paused_buffer sid node s =
     (let s1 = enqueue_previous_paused_buffers sid s;
          s2 = s1\<lparr>num_cards := num_cards s1 + of_nat (bn_size node)\<rparr>
      in paused_add sid node s2)"

text \<open>
  Modelled from the spec: \<open>enqueue_completed_buffer\<close> (body not among the sources):
  add the node's card count to \<open>num_cards\<close>, then push the node onto the tail of the
  completed queue.
\<close>

definition enqueue_completed_buffer :: "buffer_node \<Rightarrow> queue_set \<Rightarrow> queue_set" where
  "enqueue_completed_buffer node s =
     s\<lparr>num_cards := num_cards s + of_nat (bn_size node), completed := completed s @ [node]\<rparr>"

text \<open>
  Modelled from the spec: \<open>dequeue_completed_buffer\<close> (body not among the sources; the
  queue's \<open>try_pop\<close> is in nonblockingQueue.hpp, not among them either): the head of
  the completed queue, or nothing when the queue is empty. It may also return nothing
  when another thread's push or append gets in the way; \<open>interfered\<close> says whether that
  happens to this call.
\<close>

definition dequeue_completed_buffer :: "bool \<Rightarrow> queue_set \<Rightarrow> buffer_node option \<times> queue_set" where
  "dequeue_completed_buffer interfered s =
     (if interfered then (None, s)
      else case completed s of [] \<Rightarrow> (None, s) | node # rest \<Rightarrow> (Some node, s\<lparr>completed := rest\<rparr>))"

text \<open>
  Modelled from the spec: \<open>get_completed_buffer\<close> (body not among the sources): move
  the previously paused buffers back, pop one buffer, and take its cards off
  \<open>num_cards\<close>.
\<close>

definition get_completed_buffer ::
  "nat \<Rightarrow> bool \<Rightarrow> queue_set \<Rightarrow> buffer_node option \<times> queue_set" where
  "get_completed_buffer sid interfered s =
     (case dequeue_completed_buffer interfered (enqueue_previous_paused_buffers sid s) of
        (None, s') \<Rightarrow> (None, s')
      | (Some node, s') \<Rightarrow> (Some node, s'\<lparr>num_cards := num_cards s' - of_nat (bn_size node)\<rparr>))"

text \<open>
  Modelled from the spec: \<open>handle_refined_buffer\<close> (body not among the sources): a
  fully processed node is returned to the allocator, any other is recorded as paused.
\<close>

definition handle_refined_buffer :: "nat \<Rightarrow> buffer_node \<Rightarrow> bool \<Rightarrow> queue_set \<Rightarrow> queue_set" where
  "handle_refined_buffer sid node fully_processed s =
     (if fully_processed then release node s else record_paused_buffer sid node s)"

text \<open>
  Modelled from the spec: \<open>refine_completed_buffer_concurrently\<close> (body not among the
  sources): with no more than \<open>stop_at\<close> cards it returns false; otherwise it gets a
  buffer, returns false if there is none, and else refines it, deals with the node and
  returns true.
\<close>

definition refine_completed_buffer_concurrently ::
  "(nat \<Rightarrow> card_ptr \<Rightarrow> 'r \<Rightarrow> 'r) \<Rightarrow> nat \<Rightarrow> (nat \<Rightarrow> bool) \<Rightarrow> nat \<Rightarrow> bool \<Rightarrow>
     nat \<Rightarrow> size_t \<Rightarrow> refine_stats \<Rightarrow> queue_set \<Rightarrow> 'r \<Rightarrow> bool \<times> queue_set \<times> refine_stats \<times> 'r" where
  "refine_completed_buffer_concurrently hook sid should_yield elapsed interfered
       worker_id stop_at stats s r =
     (if num_cards s \<le> stop_at then (False, s, stats, r)
      else case get_completed_buffer sid interfered s of
        (None, s1) \<Rightarrow> (False, s1, stats, r)
      | (Some node, s1) \<Rightarrow>
          (case refine_buffer hook should_yield elapsed node worker_id stats r of
             (fully_processed, node', stats', r') \<Rightarrow>
               (True, handle_refined_buffer sid node' fully_processed s1, stats', r')))"

text \<open>
  Modelled from the spec: \<open>handle_completed_buffer\<close> (body not among the sources): if
  \<open>num_cards\<close> is above the mutator refinement threshold the mutator pushes the node,
  then gets one buffer and refines it, a yield sending the popped buffer to the paused
  list; otherwise the node is only enqueued. The worker id stands for the one the
  mutator claims for the time of the refinement.
\<close>

definition handle_completed_buffer ::
  "(nat \<Rightarrow> card_ptr \<Rightarrow> 'r \<Rightarrow> 'r) \<Rightarrow> nat \<Rightarrow> (nat \<Rightarrow> bool) \<Rightarrow> nat \<Rightarrow> bool \<Rightarrow>
     nat \<Rightarrow> buffer_node \<Rightarrow> refine_stats \<Rightarrow> queue_set \<Rightarrow> 'r \<Rightarrow> queue_set \<times> refine_stats \<times> 'r" where
  "handle_completed_buffer hook sid should_yield elapsed interfered worker_id node stats s r =
     (if mutator_refinement_threshold s < num_cards s then
        (case get_completed_buffer sid interfered (enqueue_completed_buffer node s) of
           (None, s1) \<Rightarrow> (s1, stats, r)
         | (Some popped, s1) \<Rightarrow>
             (case refine_buffer hook should_yield elapsed popped worker_id stats r of
                (fully_processed, popped', stats', r') \<Rightarrow>
                  (handle_refined_buffer sid popped' fully_processed s1, stats', r')))
      else (enqueue_completed_buffer node s, stats, r))"

text \<open>
  The attached threads are a list of thread ids with their queues; \<open>set_queue\<close>
  replaces the queue of a thread.
\<close>

fun set_queue ::
  "nat \<Rightarrow> dirty_card_queue \<Rightarrow> (nat \<times> dirty_card_queue) list \<Rightarrow> (nat \<times> dirty_card_queue) list" where
  "set_queue t q [] = []"
| "set_queue t q ((t', q') # ts) = (if t' = t then (t, q) # ts else (t', q') # set_queue t q ts)"

text \<open>
  Modelled from the spec: the store of the write barrier (ptrQueue.hpp is not among the
  sources): decrement the index and put the card pointer in that slot.
\<close>

definition store :: "card_ptr \<Rightarrow> buffer_node \<Rightarrow> buffer_node" where
  "store c node =
     \<lparr>bn_index = bn_index node - 1, bn_entries = (bn_entries node)[bn_index node - 1 := c]\<rparr>"

text \<open>
  Modelled from the spec: \<open>handle_zero_index\<close> (body not among the sources). It is
  called with no buffer attached or with the index at zero, so an attached buffer is
  full: that buffer is handed off with \<open>handle_completed_buffer\<close>, which updates
  the thread's statistics; then a fresh node is allocated and attached.
\<close>

definition handle_zero_index ::
  "(nat \<Rightarrow> card_ptr \<Rightarrow> 'r \<Rightarrow> 'r) \<Rightarrow> nat \<Rightarrow> nat \<Rightarrow> (nat \<Rightarrow> bool) \<Rightarrow> nat \<Rightarrow> bool \<Rightarrow>
     nat \<Rightarrow> dirty_card_queue \<Rightarrow> queue_set \<Rightarrow> 'r \<Rightarrow> dirty_card_queue \<times> queue_set \<times> 'r" where
  "handle_zero_index hook C sid should_yield elapsed interfered worker_id q s r =
     (case (case dq_buffer q of
              None \<Rightarrow> (s, dq_stats q, r)
            | Some node \<Rightarrow>
                handle_completed_buffer hook sid should_yield elapsed interfered worker_id
                  node (dq_stats q) s r) of
        (s1, stats, r') \<Rightarrow>
          (case allocate C s1 of
             (fresh, s2) \<Rightarrow> (\<lparr>dq_buffer = Some fresh, dq_stats = stats\<rparr>, s2, r')))"

text \<open>
  Modelled from the spec: \<open>G1DirtyCardQueueSet::enqueue\<close> on a thread's queue (body not
  among the sources): with no buffer attached or the index at zero it calls
  \<open>handle_zero_index\<close> and retries the store; otherwise it stores. A thread that is not
  attached has no queue, and with buffers of capacity zero the retry finds no room
  either: then there is no result.
\<close>

definition enqueue ::
  "(nat \<Rightarrow> card_ptr \<Rightarrow> 'r \<Rightarrow> 'r) \<Rightarrow> nat \<Rightarrow> nat \<Rightarrow> (nat \<Rightarrow> bool) \<Rightarrow> nat \<Rightarrow> bool \<Rightarrow>
     nat \<Rightarrow> nat \<Rightarrow> card_ptr \<Rightarrow> queue_set \<Rightarrow> 'r \<Rightarrow> (queue_set \<times> 'r) option" where
  "enqueue hook C sid should_yield elapsed interfered worker_id t c s r =
     (case map_of (threads s) t of
        None \<Rightarrow> None
      | Some q \<Rightarrow>
          (case (case dq_buffer q of
                   Some node \<Rightarrow>
                     if bn_index node = 0
                     then handle_zero_index hook C sid should_yield elapsed interfered worker_id q s r
                     else (q, s, r)
                 | None \<Rightarrow>
                     handle_zero_index hook C sid should_yield elapsed interfered worker_id q s r) of
             (q1, s1, r1) \<Rightarrow>
               (case dq_buffer q1 of
                  None \<Rightarrow> None
                | Some node \<Rightarrow>
                    if bn_index node = 0 then None
                    else Some (s1\<lparr>threads := set_queue t (q1\<lparr>dq_buffer := Some (store c node)\<rparr>)
                                               (threads s1)\<rparr>, r1))))"

text \<open>
  Modelled from the spec: \<open>flush_queue\<close> (body not among the sources): a non-empty
  buffer is handed to the queue set as a completed buffer, an empty one goes back to the
  allocator, and the thread is left without a buffer. The node is handed over with its
  index, so its live entries stay what they are; moving them inside the node's storage
  would change neither their number nor their values.
\<close>

definition flush_queue :: "nat \<Rightarrow> queue_set \<Rightarrow> queue_set option" where
  "flush_queue t s =
     (case map_of (threads s) t of
        None \<Rightarrow> None
      | Some q \<Rightarrow>
          (case dq_buffer q of
             None \<Rightarrow> Some s
           | Some node \<Rightarrow>
               Some ((if bn_index node < capacity node then enqueue_completed_buffer node s
                      else release node s)
                     \<lparr>threads := set_queue t (q\<lparr>dq_buffer := None\<rparr>) (threads s)\<rparr>)))"

text \<open>
  Modelled from the spec: the \<open>+=\<close> of \<open>G1ConcurrentRefineStats\<close> (not among the
  sources).
\<close>

definition add_stats :: "refine_stats \<Rightarrow> refine_stats \<Rightarrow> refine_stats" where
  "add_stats a b =
     \<lparr>refined_cards = refined_cards a + refined_cards b,
      refined_buffers = refined_buffers a + refined_buffers b,
      yields = yields a + yields b,
      refinement_time = refinement_time a + refinement_time b\<rparr>"

text \<open>
  Modelled from the spec: \<open>concatenate_log_and_stats\<close> (body not among the sources):
  flush the thread's partial buffer to the completed queue, fold the thread's statistics
  into the concatenated ones, and return what was folded.
\<close>

definition concatenate_log_and_stats :: "nat \<Rightarrow> queue_set \<Rightarrow> (refine_stats \<times> queue_set) option" where
  "concatenate_log_and_stats t s =
     (case map_of (threads s) t of
        None \<Rightarrow> None
      | Some q \<Rightarrow>
          (case flush_queue t s of
             None \<Rightarrow> None
           | Some s' \<Rightarrow>
               Some (dq_stats q,
                     s'\<lparr>concatenated_refinement_stats :=
                          add_stats (concatenated_refinement_stats s') (dq_stats q)\<rparr>)))"

text \<open>
  The queue set together with what the steps below observe: the id of the next
  safepoint, the card pointers enqueued so far by all threads, and the card pointers the
  refinement hook has been given, in order.
\<close>

record system =
  sys_qs :: queue_set
  sys_safepoint_id :: nat
  sys_enqueued :: "card_ptr multiset"
  sys_delivered :: "card_ptr list"

text \<open>
  The start: nothing enqueued, nothing delivered, every queue empty, the given threads
  attached without buffers.
\<close>

definition init_system :: "size_t \<Rightarrow> nat list \<Rightarrow> system" where
  "init_system threshold ts =
     \<lparr>sys_qs = \<lparr>num_cards = 0, mutator_refinement_threshold = threshold,
                completed = [], paused = None,
                concatenated_refinement_stats = zero_stats,
                detached_refinement_stats = zero_stats,
                free_list = [],
                threads = map (\<lambda>t. (t, \<lparr>dq_buffer = None, dq_stats = zero_stats\<rparr>)) ts,
                at_safepoint = False\<rparr>,
      sys_safepoint_id = 0, sys_enqueued = {#}, sys_delivered = []\<rparr>"

text \<open>
  One step of a thread, each operation taken as a whole. A mutator enqueues a card
  pointer or flushes its queue (on detach); a refinement worker calls
  \<open>refine_completed_buffer_concurrently\<close>; the threshold is set; a safepoint begins,
  during it a thread's log is concatenated or the paused buffers are moved back to the
  completed queue, and it ends, which makes the next safepoint id current. The yield
  signal, the elapsed time, the interference with the pop, the worker id, \<open>stop_at\<close> and
  the worker's statistics are arbitrary in every step. \<open>abandon_logs_and_stats\<close> is no
  step, and neither are \<open>take_all_completed_buffers\<close> and \<open>merge_bufferlists\<close>, by
  which the collector takes buffers out of the queue set or puts its own in.
\<close>

inductive step :: "nat \<Rightarrow> system \<Rightarrow> system \<Rightarrow> bool" for C :: nat where
  mutator_enqueue:
    "\<not> at_safepoint (sys_qs y) \<Longrightarrow>
     enqueue log_hook C (sys_safepoint_id y) should_yield elapsed interfered worker_id t c
       (sys_qs y) (sys_delivered y) = Some (s', log') \<Longrightarrow>
     step C y (y\<lparr>sys_qs := s', sys_delivered := log', sys_enqueued := sys_enqueued y + {#c#}\<rparr>)"
| mutator_flush:
    "\<not> at_safepoint (sys_qs y) \<Longrightarrow> flush_queue t (sys_qs y) = Some s' \<Longrightarrow>
     step C y (y\<lparr>sys_qs := s'\<rparr>)"
| refiner:
    "\<not> at_safepoint (sys_qs y) \<Longrightarrow>
     refine_completed_buffer_concurrently log_hook (sys_safepoint_id y) should_yield elapsed
       interfered worker_id stop_at stats (sys_qs y) (sys_delivered y) = (b, s', stats', log') \<Longrightarrow>
     step C y (y\<lparr>sys_qs := s', sys_delivered := log'\<rparr>)"
| set_threshold:
    "step C y (y\<lparr>sys_qs := (sys_qs y)\<lparr>mutator_refinement_threshold := v\<rparr>\<rparr>)"
| safepoint_begin:
    "\<not> at_safepoint (sys_qs y) \<Longrightarrow>
     step C y (y\<lparr>sys_qs := (sys_qs y)\<lparr>at_safepoint := True\<rparr>\<rparr>)"
| safepoint_concatenate:
    "at_safepoint (sys_qs y) \<Longrightarrow> concatenate_log_and_stats t (sys_qs y) = Some (delta, s') \<Longrightarrow>
     step C y (y\<lparr>sys_qs := s'\<rparr>)"
| safepoint_drain:
    "at_safepoint (sys_qs y) \<Longrightarrow>
     step C y (y\<lparr>sys_qs := enqueue_all_paused_buffers (sys_qs y)\<rparr>)"
| safepoint_end:
    "at_safepoint (sys_qs y) \<Longrightarrow>
     step C y (y\<lparr>sys_qs := (sys_qs y)\<lparr>at_safepoint := False\<rparr>,
                 sys_safepoint_id := sys_safepoint_id y + 1\<rparr>)"

text \<open>
  The states reached from the start by any sequence of steps.
\<close>

inductive reachable :: "nat \<Rightarrow> size_t \<Rightarrow> nat list \<Rightarrow> system \<Rightarrow> bool"
  for C :: nat and threshold :: size_t and ts :: "nat list" where
  start: "reachable C threshold ts (init_system threshold ts)"
| next_step: "reachable C threshold ts y \<Longrightarrow> step C y y' \<Longrightarrow> reachable C threshold ts y'"

text \<open>
  The card pointers resident in a list of buffers, and in the three places of the queue
  set that hold buffers: the completed queue, the paused list and the threads' queues.
\<close>

definition cards_of :: "buffer_node list \<Rightarrow> card_ptr multiset" where
  "cards_of nodes = sum_list (map (\<lambda>node. mset (live_cards node)) nodes)"


definition pool :: "queue_set \<Rightarrow> card_ptr multiset" where
  "pool s = cards_of (completed s) + cards_of (paused_nodes s)"

definition queue_cards :: "dirty_card_queue \<Rightarrow> card_ptr multiset" where
  "queue_cards q = (case dq_buffer q of None \<Rightarrow> {#} | Some node \<Rightarrow> mset (live_cards node))"

definition threads_cards :: "(nat \<times> dirty_card_queue) list \<Rightarrow> card_ptr multiset" where
  "threads_cards ts = sum_list (map (\<lambda>(t, q). queue_cards q) ts)"

















section \<open>Properties of CSpaceCounters\<close>

subsection \<open>Results of the steps\<close>

lemma bindE_Inr: "bindE m f = Inr y \<longleftrightarrow> (\<exists>x. m = Inr x \<and> f x = Inr y)"
  by (cases m) (simp_all add: bindE_def)

lemma create_perf_Inr:
  "create_perf pd v = Inr (p, v') \<longleftrightarrow>
     length (perf_items v) < perf_limit v \<and> p = length (perf_items v) \<and>
     v' = v\<lparr>perf_items := perf_items v @ [pd]\<rparr>"
  by (auto simp: create_perf_def)

lemma space_capacity_Inr:
  "space_capacity this v = Inr x \<longleftrightarrow>
     (\<exists>sp. spaces v (c_space this) = Some sp \<and> x = cs_capacity sp)"
  by (auto simp: space_capacity_def split: option.splits)

lemma space_used_Inr:
  "space_used this v = Inr x \<longleftrightarrow> (\<exists>sp. spaces v (c_space this) = Some sp \<and> x = cs_used sp)"
  by (auto simp: space_used_def split: option.splits)

text \<open>
  With perf data enabled a constructor call that returns has created five items, in the
  order of the source, and the three variable fields address the second, third and
  fourth of them.
\<close>

lemma CSpaceCounters_enabled:
  assumes "UsePerfData v0"
    and "CSpaceCounters pn name ordinal max_size s gc v0 = Inr (this, v)"
  shows "\<exists>sp cns. spaces v0 s = Some sp \<and>
     cns = name_space pn (gc_name_space gc) ''space'' ordinal \<and>
     c_space this = s \<and> c_name_space this = Some cns \<and>
     c_max_capacity this = Some (length (perf_items v0) + 1) \<and>
     c_capacity this = Some (length (perf_items v0) + 2) \<and>
     c_used this = Some (length (perf_items v0) + 3) \<and>
     length (perf_items v0) + 5 \<le> perf_limit v0 \<and>
     v = v0\<lparr>perf_items := perf_items v0 @
       [\<lparr>pd_ns = SUN_GC, pd_name = counter_name pn cns ''name'', pd_units = U_String,
         pd_variability = V_Constant, pd_value = PerfString name\<rparr>,
        \<lparr>pd_ns = SUN_GC, pd_name = counter_name pn cns ''maxCapacity'', pd_units = U_Bytes,
         pd_variability = V_Variable, pd_value = PerfLong max_size\<rparr>,
        \<lparr>pd_ns = SUN_GC, pd_name = counter_name pn cns ''capacity'', pd_units = U_Bytes,
         pd_variability = V_Variable, pd_value = PerfLong (cs_capacity sp)\<rparr>,
        \<lparr>pd_ns = SUN_GC, pd_name = counter_name pn cns ''used'', pd_units = U_Bytes,
         pd_variability = V_Variable, pd_value = PerfLong (cs_used sp)\<rparr>,
        \<lparr>pd_ns = SUN_GC, pd_name = counter_name pn cns ''initCapacity'', pd_units = U_Bytes,
         pd_variability = V_Constant, pd_value = PerfLong (cs_capacity sp)\<rparr>]\<rparr>"
  using assms
  unfolding CSpaceCounters_def Let_def
  by (auto simp: bindE_Inr create_perf_Inr create_string_constant_def create_variable_def
      create_constant_def space_capacity_Inr space_used_Inr)

lemma CSpaceCounters_ok:
  assumes "UsePerfData v0"
    and "CSpaceCounters pn name ordinal max_size s gc v0 = Inr (this, v)"
  shows "counters_ok this v"
  using CSpaceCounters_enabled [OF assms]
  by (auto simp: counters_ok_def nth_append)

lemma CSpaceCounters_disabled:
  assumes "\<not> UsePerfData v0"
  shows "CSpaceCounters pn name ordinal max_size s gc v0 =
           Inr (\<lparr>c_space = s, c_name_space = None, c_max_capacity = None,
                 c_capacity = None, c_used = None\<rparr>, v0)"
  using assms by (simp add: CSpaceCounters_def)

lemma counters_okD:
  assumes "counters_ok this v"
  obtains pm pc pu where
    "c_max_capacity this = Some pm" "c_capacity this = Some pc" "c_used this = Some pu"
    "pm \<noteq> pc" "pm \<noteq> pu" "pc \<noteq> pu"
    "pm < length (perf_items v)" "pc < length (perf_items v)" "pu < length (perf_items v)"
    "pd_variability (perf_items v ! pc) = V_Variable"
    "pd_variability (perf_items v ! pu) = V_Variable"
    "spaces v (c_space this) \<noteq> None"
  using assms by (auto simp: counters_ok_def split: option.splits)

lemma update_used_result:
  assumes "c_used this = Some pu" and "pu < length (perf_items v)"
    and "pd_variability (perf_items v ! pu) = V_Variable"
    and "spaces v (c_space this) = Some sp"
  shows "update_used this v =
     Inr (v\<lparr>perf_items := (perf_items v)[pu := (perf_items v ! pu)\<lparr>pd_value := PerfLong (cs_used sp)\<rparr>]\<rparr>)"
  using assms by (simp add: update_used_def space_used_def bindE_def set_value_def)

lemma update_capacity_result:
  assumes "c_capacity this = Some pc" and "pc < length (perf_items v)"
    and "pd_variability (perf_items v ! pc) = V_Variable"
    and "spaces v (c_space this) = Some sp"
  shows "update_capacity this v =
     Inr (v\<lparr>perf_items := (perf_items v)[pc := (perf_items v ! pc)\<lparr>pd_value := PerfLong (cs_capacity sp)\<rparr>]\<rparr>)"
  using assms by (simp add: update_capacity_def space_capacity_def bindE_def set_value_def)

text \<open>The updates keep an enabled instance enabled.\<close>

lemma update_used_keeps_ok:
  assumes "counters_ok this v" and "update_used this v = Inr v'"
  shows "counters_ok this v'"
proof -
  from assms(1) obtain sp where sp: "spaces v (c_space this) = Some sp"
    by (auto elim: counters_okD)
  from assms(1) show ?thesis
  proof (rule counters_okD)
    fix pm pc pu
    assume f: "c_max_capacity this = Some pm" "c_capacity this = Some pc" "c_used this = Some pu"
      and b: "pu < length (perf_items v)" "pd_variability (perf_items v ! pu) = V_Variable"
    from assms(2) update_used_result [OF f(3) b sp] assms(1) f show ?thesis
      by (auto simp: counters_ok_def nth_list_update)
  qed
qed

lemma update_capacity_keeps_ok:
  assumes "counters_ok this v" and "update_capacity this v = Inr v'"
  shows "counters_ok this v'"
proof -
  from assms(1) obtain sp where sp: "spaces v (c_space this) = Some sp"
    by (auto elim: counters_okD)
  from assms(1) show ?thesis
  proof (rule counters_okD)
    fix pm pc pu
    assume f: "c_max_capacity this = Some pm" "c_capacity this = Some pc" "c_used this = Some pu"
      and b: "pc < length (perf_items v)" "pd_variability (perf_items v ! pc) = V_Variable"
    from assms(2) update_capacity_result [OF f(2) b sp] assms(1) f show ?thesis
      by (auto simp: counters_ok_def nth_list_update)
  qed
qed

lemma built_on:
  "CSpaceCounters names0 ''eden'' 0 8192 0 gen0 (vm0 True) = Inr (inst_on, vm_on)"
  by (simp add: CSpaceCounters_def names0_def gen0_def vm0_def inst_on_def vm_on_def bindE_def
      create_string_constant_def create_variable_def create_constant_def create_perf_def
      space_capacity_def space_used_def)

lemma built_off:
  "CSpaceCounters names0 ''eden'' 0 8192 0 gen0 (vm0 False) = Inr (inst_off, vm0 False)"
  by (simp add: CSpaceCounters_def inst_off_def vm0_def)

lemma inst_on_ok: "counters_ok inst_on vm_later"
  by (simp add: counters_ok_def inst_on_def vm_later_def vm_on_def)

lemma inst_on_space: "spaces vm_later (c_space inst_on) = Some space_later"
  by (simp add: inst_on_def vm_later_def)

subsection \<open>Frame of the two updates\<close>

text \<open>
  Claim C8. An instance built with perf data enabled satisfies \<open>counters_ok\<close>: the
  constructor leaves it so (\<open>CSpaceCounters_ok\<close>) and both updates keep it so
  (\<open>update_used_keeps_ok\<close>, \<open>update_capacity_keeps_ok\<close>). For such an instance
  \<open>update_used\<close> returns, sets the
  variable behind \<open>_used\<close> to \<open>_space->used()\<close> and changes nothing else: the variables
  behind \<open>_capacity\<close> and \<open>_max_capacity\<close> keep their values, every other item is the
  same, the item keeps its name, and the spaces and flags are untouched. The same holds for
  \<open>update_capacity\<close> with \<open>_capacity\<close> and \<open>_space->capacity()\<close>, which leaves the
  variables behind \<open>_used\<close> and \<open>_max_capacity\<close> alone.
\<close>

theorem update_frame:
  assumes "counters_ok this v" and "spaces v (c_space this) = Some sp"
  shows "(\<exists>v'. update_used this v = Inr v' \<and>
            var_value v' (c_used this) = Some (cs_used sp) \<and>
            var_value v' (c_capacity this) = var_value v (c_capacity this) \<and>
            var_value v' (c_max_capacity this) = var_value v (c_max_capacity this) \<and>
            (\<forall>a. Some a \<noteq> c_used this \<longrightarrow> perf_items v' ! a = perf_items v ! a) \<and>
            length (perf_items v') = length (perf_items v) \<and>
            var_name v' (c_used this) = var_name v (c_used this) \<and>
            spaces v' = spaces v \<and> UsePerfData v' = UsePerfData v \<and>
            perf_limit v' = perf_limit v) \<and>
         (\<exists>v'. update_capacity this v = Inr v' \<and>
            var_value v' (c_capacity this) = Some (cs_capacity sp) \<and>
            var_value v' (c_used this) = var_value v (c_used this) \<and>
            var_value v' (c_max_capacity this) = var_value v (c_max_capacity this) \<and>
            (\<forall>a. Some a \<noteq> c_capacity this \<longrightarrow> perf_items v' ! a = perf_items v ! a) \<and>
            length (perf_items v') = length (perf_items v) \<and>
            var_name v' (c_capacity this) = var_name v (c_capacity this) \<and>
            spaces v' = spaces v \<and> UsePerfData v' = UsePerfData v \<and>
            perf_limit v' = perf_limit v)"
  using assms(1)
proof (rule counters_okD)
  fix pm pc pu
  assume f: "c_max_capacity this = Some pm" "c_capacity this = Some pc" "c_used this = Some pu"
    and d: "pm \<noteq> pc" "pm \<noteq> pu" "pc \<noteq> pu"
    and b: "pm < length (perf_items v)" "pc < length (perf_items v)" "pu < length (perf_items v)"
    and k: "pd_variability (perf_items v ! pc) = V_Variable"
      "pd_variability (perf_items v ! pu) = V_Variable"
  note u = update_used_result [OF f(3) b(3) k(2) assms(2)]
  note c = update_capacity_result [OF f(2) b(2) k(1) assms(2)]
  show ?thesis
    unfolding u c using f d b by (simp add: var_value_def var_name_def)
qed

theorem update_frame_witness:
  "CSpaceCounters names0 ''eden'' 0 8192 0 gen0 (vm0 True) = Inr (inst_on, vm_on) \<and>
   vm_later = vm_on\<lparr>spaces := [0 \<mapsto> space_later]\<rparr> \<and>
   counters_ok inst_on vm_later \<and> spaces vm_later (c_space inst_on) = Some space_later \<and>
   (\<exists>v'. update_used inst_on vm_later = Inr v' \<and>
      var_value v' (c_used inst_on) = Some 1024 \<and>
      var_value v' (c_capacity inst_on) = Some 4096 \<and>
      var_value v' (c_max_capacity inst_on) = Some 8192) \<and>
   (\<exists>v'. update_capacity inst_on vm_later = Inr v' \<and>
      var_value v' (c_capacity inst_on) = Some 6144 \<and>
      var_value v' (c_used inst_on) = Some 512 \<and>
      var_value v' (c_max_capacity inst_on) = Some 8192)"
proof -
  have v: "var_value vm_later (c_used inst_on) = Some 512"
    "var_value vm_later (c_capacity inst_on) = Some 4096"
    "var_value vm_later (c_max_capacity inst_on) = Some 8192"
    by (simp_all add: var_value_def inst_on_def vm_later_def vm_on_def)
  from update_frame [OF inst_on_ok inst_on_space] v show ?thesis
    using inst_on_ok inst_on_space built_on by (auto simp: space_later_def vm_later_def)
qed

subsection \<open>update_all\<close>

text \<open>
  Claim C9. In every state \<open>update_all\<close> is \<open>update_used\<close> followed by
  \<open>update_capacity\<close>. For an instance built with perf data enabled both return, and the state after the
  second is the result of \<open>update_all\<close>, in which the variable behind \<open>_used\<close> holds
  \<open>_space->used()\<close>, the one behind \<open>_capacity\<close> holds \<open>_space->capacity()\<close> and the one
  behind \<open>_max_capacity\<close> is unchanged. The space is left as it was, and a second
  \<open>update_all\<close> returns the very same state.
\<close>

theorem update_all_effect:
  assumes "counters_ok this v" and "spaces v (c_space this) = Some sp"
  shows "update_all this v = bindE (update_used this v) (update_capacity this) \<and>
         (\<exists>v1 v2. update_used this v = Inr v1 \<and> update_capacity this v1 = Inr v2 \<and>
           update_all this v = Inr v2 \<and>
           var_value v2 (c_used this) = Some (cs_used sp) \<and>
           var_value v2 (c_capacity this) = Some (cs_capacity sp) \<and>
           var_value v2 (c_max_capacity this) = var_value v (c_max_capacity this) \<and>
           spaces v2 = spaces v \<and>
           update_all this v2 = Inr v2)"
  using assms(1)
proof (rule counters_okD)
  fix pm pc pu
  assume f: "c_max_capacity this = Some pm" "c_capacity this = Some pc" "c_used this = Some pu"
    and d: "pm \<noteq> pc" "pm \<noteq> pu" "pc \<noteq> pu"
    and b: "pm < length (perf_items v)" "pc < length (perf_items v)" "pu < length (perf_items v)"
    and k: "pd_variability (perf_items v ! pc) = V_Variable"
      "pd_variability (perf_items v ! pu) = V_Variable"
  define v1 where
    "v1 = v\<lparr>perf_items := (perf_items v)[pu := (perf_items v ! pu)\<lparr>pd_value := PerfLong (cs_used sp)\<rparr>]\<rparr>"
  define v2 where
    "v2 = v1\<lparr>perf_items := (perf_items v1)[pc := (perf_items v1 ! pc)\<lparr>pd_value := PerfLong (cs_capacity sp)\<rparr>]\<rparr>"
  have u: "update_used this v = Inr v1"
    unfolding v1_def by (rule update_used_result [OF f(3) b(3) k(2) assms(2)])
  have c: "update_capacity this v1 = Inr v2"
    unfolding v2_def by (rule update_capacity_result) (use f b k d assms(2) in \<open>simp_all add: v1_def\<close>)
  have a: "update_all this v = Inr v2"
    by (simp add: update_all_def u c bindE_def)
  have u2: "update_used this v2 = Inr v2"
    using assms(2) f b k d
    by (simp add: v1_def v2_def update_used_def space_used_def bindE_def set_value_def
        list_update_swap)
  have c2: "update_capacity this v2 = Inr v2"
    using assms(2) f b k d
    by (simp add: v1_def v2_def update_capacity_def space_capacity_def bindE_def set_value_def)
  have a2: "update_all this v2 = Inr v2"
    by (simp add: update_all_def u2 c2 bindE_def)
  have "\<exists>v1 v2. update_used this v = Inr v1 \<and> update_capacity this v1 = Inr v2 \<and>
           update_all this v = Inr v2 \<and>
           var_value v2 (c_used this) = Some (cs_used sp) \<and>
           var_value v2 (c_capacity this) = Some (cs_capacity sp) \<and>
           var_value v2 (c_max_capacity this) = var_value v (c_max_capacity this) \<and>
           spaces v2 = spaces v \<and>
           update_all this v2 = Inr v2"
    using u c a a2 f d b by (simp add: v1_def v2_def var_value_def)
  then show ?thesis by (simp add: update_all_def)
qed

theorem update_all_effect_witness:
  "counters_ok inst_on vm_later \<and> spaces vm_later (c_space inst_on) = Some space_later \<and>
   (\<exists>v2. update_all inst_on vm_later = Inr v2 \<and>
      var_value v2 (c_used inst_on) = Some 1024 \<and>
      var_value v2 (c_capacity inst_on) = Some 6144 \<and>
      var_value v2 (c_max_capacity inst_on) = Some 8192 \<and>
      update_all inst_on v2 = Inr v2)"
proof -
  have v: "var_value vm_later (c_max_capacity inst_on) = Some 8192"
    by (simp add: var_value_def inst_on_def vm_later_def vm_on_def)
  from update_all_effect [OF inst_on_ok inst_on_space, THEN conjunct2] v show ?thesis
    using inst_on_ok inst_on_space by (auto simp: space_later_def)
qed

subsection \<open>The updates need perf data\<close>

text \<open>
  Claim C10. The constructor assigns \<open>_capacity\<close> and \<open>_used\<close> only when \<open>UsePerfData\<close>
  is set. For an instance it has returned: if the flag was set, \<open>update_capacity\<close>,
  \<open>update_used\<close> and \<open>update_all\<close> return; if it was not, the VM is unchanged, both
  fields are unassigned, and the three operations fail in every state, with the read of
  an unassigned pointer whenever the space itself is allocated.
\<close>

theorem updates_need_UsePerfData:
  assumes "CSpaceCounters pn name ordinal max_size s gc v0 = Inr (this, v)"
  shows "(UsePerfData v0 \<longrightarrow>
            (\<exists>v'. update_capacity this v = Inr v') \<and> (\<exists>v'. update_used this v = Inr v') \<and>
            (\<exists>v'. update_all this v = Inr v')) \<and>
         (\<not> UsePerfData v0 \<longrightarrow>
            v = v0 \<and> c_capacity this = None \<and> c_used this = None \<and>
            (\<forall>w. (\<exists>e. update_capacity this w = Inl e) \<and> (\<exists>e. update_used this w = Inl e) \<and>
                 (\<exists>e. update_all this w = Inl e) \<and>
                 (spaces w s \<noteq> None \<longrightarrow>
                    update_capacity this w = Inl Uninitialized_pointer \<and>
                    update_used this w = Inl Uninitialized_pointer \<and>
                    update_all this w = Inl Uninitialized_pointer)))"
proof (cases "UsePerfData v0")
  case True
  have ok: "counters_ok this v" by (rule CSpaceCounters_ok [OF True assms])
  from ok obtain sp where sp: "spaces v (c_space this) = Some sp"
    by (auto elim: counters_okD)
  from ok have "(\<exists>v'. update_capacity this v = Inr v') \<and> (\<exists>v'. update_used this v = Inr v')"
  proof (rule counters_okD)
    fix pm pc pu
    assume f: "c_capacity this = Some pc" "c_used this = Some pu"
      and b: "pc < length (perf_items v)" "pu < length (perf_items v)"
      and k: "pd_variability (perf_items v ! pc) = V_Variable"
        "pd_variability (perf_items v ! pu) = V_Variable"
    show ?thesis
      by (simp add: update_used_result [OF f(2) b(2) k(2) sp]
          update_capacity_result [OF f(1) b(1) k(1) sp])
  qed
  moreover have "\<exists>v'. update_all this v = Inr v'"
  proof -
    from calculation obtain v1 where v1: "update_used this v = Inr v1" by blast
    have ok1: "counters_ok this v1" by (rule update_used_keeps_ok [OF ok v1])
    from ok1 obtain sp1 where sp1: "spaces v1 (c_space this) = Some sp1"
      by (auto elim: counters_okD)
    from ok1 have "\<exists>v'. update_capacity this v1 = Inr v'"
    proof (rule counters_okD)
      fix pm pc pu
      assume f: "c_capacity this = Some pc"
        and b: "pc < length (perf_items v1)"
        and k: "pd_variability (perf_items v1 ! pc) = V_Variable"
      show ?thesis by (simp add: update_capacity_result [OF f b k sp1])
    qed
    then show ?thesis by (simp add: update_all_def v1 bindE_def)
  qed
  ultimately show ?thesis using True by simp
next
  case False
  from assms have t: "this = \<lparr>c_space = s, c_name_space = None, c_max_capacity = None,
                    c_capacity = None, c_used = None\<rparr>" and v: "v = v0"
    by (simp_all add: CSpaceCounters_disabled [OF False])
  have "\<And>w. (\<exists>e. update_capacity this w = Inl e) \<and> (\<exists>e. update_used this w = Inl e) \<and>
                 (\<exists>e. update_all this w = Inl e) \<and>
                 (spaces w s \<noteq> None \<longrightarrow>
                    update_capacity this w = Inl Uninitialized_pointer \<and>
                    update_used this w = Inl Uninitialized_pointer \<and>
                    update_all this w = Inl Uninitialized_pointer)"
    by (auto simp: t update_all_def update_capacity_def update_used_def space_capacity_def
        space_used_def bindE_def split: option.splits)
  with False t v show ?thesis by simp
qed

theorem updates_need_UsePerfData_witness:
  "CSpaceCounters names0 ''eden'' 0 8192 0 gen0 (vm0 True) = Inr (inst_on, vm_on) \<and>
   UsePerfData (vm0 True) \<and>
   (\<exists>v'. update_capacity inst_on vm_on = Inr v') \<and> (\<exists>v'. update_used inst_on vm_on = Inr v') \<and>
   (\<exists>v'. update_all inst_on vm_on = Inr v') \<and>
   CSpaceCounters names0 ''eden'' 0 8192 0 gen0 (vm0 False) = Inr (inst_off, vm0 False) \<and>
   \<not> UsePerfData (vm0 False) \<and> spaces vm_later 0 \<noteq> None \<and>
   c_capacity inst_off = None \<and> c_used inst_off = None \<and>
   update_capacity inst_off vm_later = Inl Uninitialized_pointer \<and>
   update_used inst_off vm_later = Inl Uninitialized_pointer \<and>
   update_all inst_off vm_later = Inl Uninitialized_pointer"
proof -
  have on: "UsePerfData (vm0 True)" and off: "\<not> UsePerfData (vm0 False)"
    by (simp_all add: vm0_def)
  have sp: "spaces vm_later 0 \<noteq> None" by (simp add: vm_later_def)
  from updates_need_UsePerfData [OF built_on] updates_need_UsePerfData [OF built_off]
  show ?thesis using on off sp built_on built_off by simp
qed

section \<open>Properties of the dirty card queue set\<close>

subsection \<open>The refinement loop\<close>

text \<open>
  What one run of the loop does, from position \<open>i\<close>: it stops at a position \<open>j\<close> no
  smaller than \<open>i\<close> and no larger than the capacity, it reports completion exactly when
  \<open>j\<close> is the capacity, a yield comes only after at least one entry, and the hook has
  seen the entries \<open>i\<close> to \<open>j - 1\<close>, each once, in order.
\<close>

lemma refine_entries_result:
  assumes "refine_entries h ys node i k r = (j, b, r')" and "i \<le> capacity node"
  shows "i \<le> j \<and> j \<le> capacity node \<and> (b \<longleftrightarrow> j = capacity node) \<and> (\<not> b \<longrightarrow> i < j) \<and>
         r' = fold h (take (j - i) (drop i (bn_entries node))) r"
  using assms
proof (induction h ys node i k r rule: refine_entries.induct)
  case (1 hook should_yield node i k r)
  show ?case
  proof (cases "i < capacity node")
    case False
    with "1.prems" show ?thesis by (simp add: refine_entries.simps)
  next
    case lt: True
    then have cons: "drop i (bn_entries node) = bn_entries node ! i # drop (Suc i) (bn_entries node)"
      by (simp add: capacity_def Cons_nth_drop_Suc)
    show ?thesis
    proof (cases "i + 1 < capacity node")
      case False
      with lt have "capacity node = Suc i" by simp
      with "1.prems" lt False cons show ?thesis
        by (auto simp: refine_entries.simps [of hook should_yield node i] Let_def capacity_def)
    next
      case more: True
      show ?thesis
      proof (cases "should_yield k")
        case True
        with "1.prems" lt more cons show ?thesis
          by (auto simp: refine_entries.simps [of hook should_yield node i] Let_def)
      next
        case False
        with "1.prems" lt more have rec:
          "refine_entries hook should_yield node (i + 1) (k + 1) (hook (bn_entries node ! i) r) = (j, b, r')"
          by (simp add: refine_entries.simps [of hook should_yield node i] Let_def)
        from "1.IH" [OF lt refl more False rec] more
        have ih: "i + 1 \<le> j" "j \<le> capacity node" "b \<longleftrightarrow> j = capacity node"
          "r' = fold hook (take (j - (i + 1)) (drop (i + 1) (bn_entries node))) (hook (bn_entries node ! i) r)"
          by simp_all
        from ih(1) have "j - i = Suc (j - (i + 1))" by simp
        with ih cons show ?thesis by simp
      qed
    qed
  qed
qed

lemma live_cards_split:
  assumes "bn_index node \<le> j" and "bn_entries node' = bn_entries node" and "bn_index node' = j"
  shows "live_cards node = take (j - bn_index node) (live_cards node) @ live_cards node'"
proof -
  have "drop (j - bn_index node) (live_cards node) = live_cards node'"
    using assms by (simp add: live_cards_def)
  then show ?thesis by (metis append_take_drop_id)
qed

lemma refine_buffer_result:
  assumes "refine_buffer hook ys dt node w stats r = (b, node', stats', r')"
    and "bn_index node \<le> capacity node"
  shows "bn_entries node' = bn_entries node \<and>
         bn_index node \<le> bn_index node' \<and> bn_index node' \<le> capacity node \<and>
         (b \<longleftrightarrow> bn_index node' = capacity node) \<and>
         (\<not> b \<longrightarrow> bn_index node < bn_index node') \<and>
         r' = fold (hook w) (take (bn_index node' - bn_index node) (live_cards node)) r \<and>
         refined_cards stats' = refined_cards stats + (bn_index node' - bn_index node) \<and>
         refinement_time stats' = refinement_time stats + dt"
proof -
  obtain j c r1 where e: "refine_entries (hook w) ys node (bn_index node) 0 r = (j, c, r1)"
    by (metis prod_cases3)
  from assms(1) e have eq: "b = c" "node' = node\<lparr>bn_index := j\<rparr>" "r' = r1"
    "stats' = stats\<lparr>refined_cards := refined_cards stats + (j - bn_index node),
                 refinement_time := refinement_time stats + dt\<rparr>"
    by (simp_all add: refine_buffer_def)
  from refine_entries_result [OF e assms(2)] eq show ?thesis
    by (simp add: live_cards_def)
qed

text \<open>
  How the yield signal decides the outcome. The \<open>k\<close>-th poll of a run comes after the
  \<open>k\<close>-th entry processed, and only while a further entry is left. The run completes
  exactly when none of these polls answers yes; otherwise it stops right after the first
  poll that does.
\<close>

lemma no_yield_shift:
  fixes ys :: "nat \<Rightarrow> bool" and i c k :: nat
  assumes "\<not> ys k"
  shows "(\<forall>m. i + m + 1 < c \<longrightarrow> \<not> ys (k + m)) \<longleftrightarrow>
         (\<forall>m. i + 1 + m + 1 < c \<longrightarrow> \<not> ys (k + 1 + m))"
proof
  assume l: "\<forall>m. i + m + 1 < c \<longrightarrow> \<not> ys (k + m)"
  show "\<forall>m. i + 1 + m + 1 < c \<longrightarrow> \<not> ys (k + 1 + m)"
  proof (intro allI impI)
    fix m :: nat assume "i + 1 + m + 1 < c"
    then have "i + Suc m + 1 < c" by arith
    with l have "\<not> ys (k + Suc m)" by blast
    then show "\<not> ys (k + 1 + m)" by simp
  qed
next
  assume r: "\<forall>m. i + 1 + m + 1 < c \<longrightarrow> \<not> ys (k + 1 + m)"
  show "\<forall>m. i + m + 1 < c \<longrightarrow> \<not> ys (k + m)"
  proof (intro allI impI)
    fix m :: nat assume m: "i + m + 1 < c"
    show "\<not> ys (k + m)"
    proof (cases m)
      case 0
      with assms show ?thesis by simp
    next
      case (Suc n)
      with m have "i + 1 + n + 1 < c" by arith
      with r have "\<not> ys (k + 1 + n)" by blast
      with Suc show ?thesis by simp
    qed
  qed
qed

lemma first_yield_shift:
  fixes ys :: "nat \<Rightarrow> bool" and k d :: nat
  assumes "\<not> ys k" and "ys (k + 1 + d)" and "\<forall>m<d. \<not> ys (k + 1 + m)"
  shows "ys (k + Suc d) \<and> (\<forall>m<Suc d. \<not> ys (k + m))"
proof
  from assms(2) show "ys (k + Suc d)" by simp
  show "\<forall>m<Suc d. \<not> ys (k + m)"
  proof (intro allI impI)
    fix m assume m: "m < Suc d"
    show "\<not> ys (k + m)"
    proof (cases m)
      case 0
      with assms(1) show ?thesis by simp
    next
      case (Suc n)
      with m have "n < d" by arith
      with assms(3) have "\<not> ys (k + 1 + n)" by blast
      with Suc show ?thesis by simp
    qed
  qed
qed

lemma refine_entries_yield:
  assumes "refine_entries h ys node i k r = (j, b, r')" and "i \<le> capacity node"
  shows "(b \<longleftrightarrow> (\<forall>m. i + m + 1 < capacity node \<longrightarrow> \<not> ys (k + m))) \<and>
         (\<not> b \<longrightarrow> (\<exists>d. j = i + d + 1 \<and> ys (k + d) \<and> (\<forall>m<d. \<not> ys (k + m))))"
  using assms
proof (induction h ys node i k r rule: refine_entries.induct)
  case (1 hook should_yield node i k r)
  show ?case
  proof (cases "i < capacity node")
    case False
    with "1.prems" have "b" by (simp add: refine_entries.simps [of hook should_yield node i])
    moreover from False have "\<forall>m. i + m + 1 < capacity node \<longrightarrow> \<not> should_yield (k + m)"
      by simp
    ultimately show ?thesis by blast
  next
    case lt: True
    show ?thesis
    proof (cases "i + 1 < capacity node")
      case False
      with "1.prems" lt have "b"
        by (simp add: refine_entries.simps [of hook should_yield node i] Let_def)
      moreover from False have "\<forall>m. i + m + 1 < capacity node \<longrightarrow> \<not> should_yield (k + m)"
        by simp
      ultimately show ?thesis by blast
    next
      case more: True
      show ?thesis
      proof (cases "should_yield k")
        case True
        with "1.prems" lt more have jb: "j = i + 0 + 1" "\<not> b"
          by (simp_all add: refine_entries.simps [of hook should_yield node i] Let_def)
        from more True have ex: "\<not> (\<forall>m. i + m + 1 < capacity node \<longrightarrow> \<not> should_yield (k + m))"
          by (auto intro: exI [of _ 0])
        have "\<exists>d. j = i + d + 1 \<and> should_yield (k + d) \<and> (\<forall>m<d. \<not> should_yield (k + m))"
          using jb(1) True by (intro exI [of _ 0]) simp
        with jb(2) ex show ?thesis by blast
      next
        case False
        with "1.prems" lt more have rec:
          "refine_entries hook should_yield node (i + 1) (k + 1) (hook (bn_entries node ! i) r) = (j, b, r')"
          by (simp add: refine_entries.simps [of hook should_yield node i] Let_def)
        from more have le: "i + 1 \<le> capacity node" by simp
        note ih = "1.IH" [OF lt refl more False rec le]
        note ih1 = ih [THEN conjunct1]
        note ih2 = ih [THEN conjunct2]
        note sh = no_yield_shift [of should_yield k i "capacity node", OF False]
        have c1: "b \<longleftrightarrow> (\<forall>m. i + m + 1 < capacity node \<longrightarrow> \<not> should_yield (k + m))"
          using ih1 sh by blast
        have c2: "\<not> b \<longrightarrow>
            (\<exists>d. j = i + d + 1 \<and> should_yield (k + d) \<and> (\<forall>m<d. \<not> should_yield (k + m)))"
        proof
          assume "\<not> b"
          with ih2 obtain d where d: "j = i + 1 + d + 1" "should_yield (k + 1 + d)"
            "\<forall>m<d. \<not> should_yield (k + 1 + m)" by blast
          from d(1) have j: "j = i + Suc d + 1" by arith
          from first_yield_shift [of should_yield k d, OF False d(2) d(3)] j
          show "\<exists>d. j = i + d + 1 \<and> should_yield (k + d) \<and> (\<forall>m<d. \<not> should_yield (k + m))"
            by blast
        qed
        from c1 c2 show ?thesis by (rule conjI)
      qed
    qed
  qed
qed

lemma refine_buffer_yield:
  assumes "refine_buffer hook ys dt node w stats r = (b, node', stats', r')"
    and "bn_index node \<le> capacity node"
  shows "(b \<longleftrightarrow> (\<forall>k. bn_index node + k + 1 < capacity node \<longrightarrow> \<not> ys k)) \<and>
         (\<not> b \<longrightarrow> ys (bn_index node' - bn_index node - 1) \<and>
                 (\<forall>k < bn_index node' - bn_index node - 1. \<not> ys k))"
proof -
  obtain j c r1 where e: "refine_entries (hook w) ys node (bn_index node) 0 r = (j, c, r1)"
    by (metis prod_cases3)
  from assms(1) e have eq0: "b = c" "node' = node\<lparr>bn_index := j\<rparr>"
    by (simp_all add: refine_buffer_def)
  from eq0(2) have "bn_index node' = j" by simp
  with eq0(1) have eq: "b = c" "bn_index node' = j" by simp_all
  note y = refine_entries_yield [OF e assms(2)]
  have c1: "b \<longleftrightarrow> (\<forall>k. bn_index node + k + 1 < capacity node \<longrightarrow> \<not> ys k)"
    using y [THEN conjunct1] eq(1) by simp
  have c2: "\<not> b \<longrightarrow> ys (bn_index node' - bn_index node - 1) \<and>
                 (\<forall>k < bn_index node' - bn_index node - 1. \<not> ys k)"
  proof
    assume "\<not> b"
    with y [THEN conjunct2] eq(1) obtain d where
      d: "j = bn_index node + d + 1" "ys (0 + d)" "\<forall>m<d. \<not> ys (0 + m)" by blast
    from d(1) eq(2) have "bn_index node' - bn_index node - 1 = d" by arith
    with d(2) d(3) show "ys (bn_index node' - bn_index node - 1) \<and>
                 (\<forall>k < bn_index node' - bn_index node - 1. \<not> ys k)" by simp
  qed
  from c1 c2 show ?thesis by (rule conjI)
qed

lemma node0_first_run:
  "refine_buffer log_hook (yield_at 1) 5 node0 0 zero_stats [] =
     (False, node0\<lparr>bn_index := 3\<rparr>,
      \<lparr>refined_cards = 2, refined_buffers = 0, yields = 0, refinement_time = 5\<rparr>, [11, 12])"
  by (simp add: refine_buffer_def refine_entries.simps node0_def capacity_def log_hook_def
      zero_stats_def yield_at_def)

lemma node0_second_run:
  "refine_buffer log_hook never_yield 7 (node0\<lparr>bn_index := 3\<rparr>) 1 zero_stats [11, 12] =
     (True, node0\<lparr>bn_index := 4\<rparr>,
      \<lparr>refined_cards = 1, refined_buffers = 0, yields = 0, refinement_time = 7\<rparr>, [11, 12, 13])"
  by (simp add: refine_buffer_def refine_entries.simps node0_def capacity_def log_hook_def
      zero_stats_def never_yield_def)

text \<open>
  Claim C2. Let \<open>refine_buffer\<close> run on a node whose index is within its capacity. The
  entries are not changed. The call returns true exactly when no poll of the yield signal
  made between two entries answers yes; then the node's index is the capacity and the
  hook has seen every live entry of the node, once and in order. It returns false exactly
  when some such poll answers yes; then it has stopped at the first of them, the index
  has moved forward by the number of entries processed until then, at least one, and is
  below the capacity. In both cases the live entries of the node before the call are the
  entries the hook has seen followed by the live entries of the node after it, and the
  statistics count the entries seen. Any later call on the returned node, whatever its
  yield signal and worker, hands the hook a prefix of that node's live entries, and all
  of them and nothing else when it completes.
\<close>

theorem refine_buffer_yield_resume:
  assumes "refine_buffer hook ys dt node w stats r = (b, node', stats', r')"
    and "bn_index node \<le> capacity node"
  shows "bn_entries node' = bn_entries node \<and>
         (b \<longleftrightarrow> (\<forall>k. bn_index node + k + 1 < capacity node \<longrightarrow> \<not> ys k)) \<and>
         (b \<longrightarrow> bn_index node' = capacity node \<and> r' = fold (hook w) (live_cards node) r) \<and>
         (\<not> b \<longrightarrow> bn_index node < bn_index node' \<and> bn_index node' < capacity node \<and>
                 ys (bn_index node' - bn_index node - 1) \<and>
                 (\<forall>k < bn_index node' - bn_index node - 1. \<not> ys k)) \<and>
         live_cards node = take (bn_index node' - bn_index node) (live_cards node) @ live_cards node' \<and>
         r' = fold (hook w) (take (bn_index node' - bn_index node) (live_cards node)) r \<and>
         refined_cards stats' = refined_cards stats + (bn_index node' - bn_index node) \<and>
         (\<forall>ys2 dt2 w2 stats2 b2 node2 stats2' r2.
            refine_buffer hook ys2 dt2 node' w2 stats2 r' = (b2, node2, stats2', r2) \<longrightarrow>
              r2 = fold (hook w2) (take (bn_index node2 - bn_index node') (live_cards node')) r' \<and>
              (b2 \<longrightarrow> bn_index node2 = capacity node \<and> r2 = fold (hook w2) (live_cards node') r'))"
proof -
  note 1 = refine_buffer_result [OF assms]
  note y = refine_buffer_yield [OF assms]
  have ent: "bn_entries node' = bn_entries node" using 1 by blast
  have lo: "bn_index node \<le> bn_index node'" using 1 by blast
  have hi: "bn_index node' \<le> capacity node" using 1 by blast
  have bb: "b \<longleftrightarrow> bn_index node' = capacity node" using 1 by blast
  have nb: "\<not> b \<longrightarrow> bn_index node < bn_index node'" using 1 by blast
  have rr: "r' = fold (hook w) (take (bn_index node' - bn_index node) (live_cards node)) r"
    using 1 by blast
  have st: "refined_cards stats' = refined_cards stats + (bn_index node' - bn_index node)"
    using 1 by blast
  have sig: "b \<longleftrightarrow> (\<forall>k. bn_index node + k + 1 < capacity node \<longrightarrow> \<not> ys k)"
    by (rule y [THEN conjunct1])
  have cap: "capacity node' = capacity node" using ent by (simp add: capacity_def)
  have le: "bn_index node' \<le> capacity node'" using hi cap by simp
  have len: "length (live_cards node) = capacity node - bn_index node"
    by (simp add: live_cards_def capacity_def)
  have len': "length (live_cards node') = capacity node' - bn_index node'"
    by (simp add: live_cards_def capacity_def)
  have split: "live_cards node = take (bn_index node' - bn_index node) (live_cards node) @ live_cards node'"
    by (rule live_cards_split [OF lo ent refl])
  have full: "b \<longrightarrow> bn_index node' = capacity node \<and> r' = fold (hook w) (live_cards node) r"
  proof
    assume b
    with bb have e: "bn_index node' = capacity node" by simp
    have "take (bn_index node' - bn_index node) (live_cards node) = live_cards node"
      using len e by simp
    with rr e show "bn_index node' = capacity node \<and> r' = fold (hook w) (live_cards node) r"
      by simp
  qed
  have part: "\<not> b \<longrightarrow> bn_index node < bn_index node' \<and> bn_index node' < capacity node \<and>
                 ys (bn_index node' - bn_index node - 1) \<and>
                 (\<forall>k < bn_index node' - bn_index node - 1. \<not> ys k)"
  proof
    assume n: "\<not> b"
    from n nb have p1: "bn_index node < bn_index node'" by simp
    from n bb hi have p2: "bn_index node' < capacity node" by simp
    from n y [THEN conjunct2] have p3: "ys (bn_index node' - bn_index node - 1) \<and>
                 (\<forall>k < bn_index node' - bn_index node - 1. \<not> ys k)" by (rule rev_mp)
    from p1 p2 p3 show "bn_index node < bn_index node' \<and> bn_index node' < capacity node \<and>
                 ys (bn_index node' - bn_index node - 1) \<and>
                 (\<forall>k < bn_index node' - bn_index node - 1. \<not> ys k)" by (intro conjI) blast+
  qed
  have resume: "\<forall>ys2 dt2 w2 stats2 b2 node2 stats2' r2.
            refine_buffer hook ys2 dt2 node' w2 stats2 r' = (b2, node2, stats2', r2) \<longrightarrow>
              r2 = fold (hook w2) (take (bn_index node2 - bn_index node') (live_cards node')) r' \<and>
              (b2 \<longrightarrow> bn_index node2 = capacity node \<and> r2 = fold (hook w2) (live_cards node') r')"
  proof (intro allI impI)
    fix ys2 dt2 w2 stats2 b2 node2 stats2' r2
    assume a: "refine_buffer hook ys2 dt2 node' w2 stats2 r' = (b2, node2, stats2', r2)"
    note 2 = refine_buffer_result [OF a le]
    have r2: "r2 = fold (hook w2) (take (bn_index node2 - bn_index node') (live_cards node')) r'"
      using 2 by blast
    have c2: "b2 \<longleftrightarrow> bn_index node2 = capacity node'" using 2 by blast
    have "b2 \<longrightarrow> bn_index node2 = capacity node \<and> r2 = fold (hook w2) (live_cards node') r'"
    proof
      assume b2
      with c2 have e: "bn_index node2 = capacity node'" by simp
      have "take (bn_index node2 - bn_index node') (live_cards node') = live_cards node'"
        using len' e by simp
      with r2 e cap show "bn_index node2 = capacity node \<and> r2 = fold (hook w2) (live_cards node') r'"
        by simp
    qed
    with r2 show "r2 = fold (hook w2) (take (bn_index node2 - bn_index node') (live_cards node')) r' \<and>
              (b2 \<longrightarrow> bn_index node2 = capacity node \<and> r2 = fold (hook w2) (live_cards node') r')"
      by (rule conjI)
  qed
  from ent sig full part split rr st resume show ?thesis
    by (intro conjI)
qed

theorem refine_buffer_yield_resume_witness:
  "refine_buffer log_hook (yield_at 1) 5 node0 0 zero_stats [] =
     (False, node0\<lparr>bn_index := 3\<rparr>,
      \<lparr>refined_cards = 2, refined_buffers = 0, yields = 0, refinement_time = 5\<rparr>, [11, 12]) \<and>
   bn_index node0 \<le> capacity node0 \<and>
   bn_index node0 < bn_index (node0\<lparr>bn_index := 3\<rparr>) \<and>
   bn_index (node0\<lparr>bn_index := 3\<rparr>) < capacity node0 \<and>
   yield_at 1 (bn_index (node0\<lparr>bn_index := 3\<rparr>) - bn_index node0 - 1) \<and>
   live_cards node0 = [11, 12] @ live_cards (node0\<lparr>bn_index := 3\<rparr>) \<and>
   refine_buffer log_hook never_yield 7 (node0\<lparr>bn_index := 3\<rparr>) 1 zero_stats [11, 12] =
     (True, node0\<lparr>bn_index := 4\<rparr>,
      \<lparr>refined_cards = 1, refined_buffers = 0, yields = 0, refinement_time = 7\<rparr>, [11, 12, 13]) \<and>
   bn_index (node0\<lparr>bn_index := 4\<rparr>) = capacity node0 \<and>
   [11, 12, 13] = fold (log_hook 1) (live_cards (node0\<lparr>bn_index := 3\<rparr>)) [11, 12]"
proof -
  have le: "bn_index node0 \<le> capacity node0" by (simp add: node0_def capacity_def)
  note t = refine_buffer_yield_resume [OF node0_first_run le]
  note c4 = t [THEN conjunct2, THEN conjunct2, THEN conjunct2, THEN conjunct1, THEN mp,
      OF not_False_eq_True [THEN iffD2, OF TrueI]]
  note c5 = t [THEN conjunct2, THEN conjunct2, THEN conjunct2, THEN conjunct2, THEN conjunct1]
  note c8 = t [THEN conjunct2, THEN conjunct2, THEN conjunct2, THEN conjunct2, THEN conjunct2,
      THEN conjunct2, THEN conjunct2, rule_format, OF node0_second_run]
  note p1 = c4 [THEN conjunct1]
  note p2 = c4 [THEN conjunct2, THEN conjunct1]
  note p3 = c4 [THEN conjunct2, THEN conjunct2, THEN conjunct1]
  from c5 have split: "live_cards node0 = [11, 12] @ live_cards (node0\<lparr>bn_index := 3\<rparr>)"
    by (simp add: node0_def live_cards_def)
  note res = c8 [THEN conjunct2, THEN mp, OF TrueI]
  show ?thesis
    apply (rule conjI [OF node0_first_run])
    apply (rule conjI [OF le])
    apply (rule conjI [OF p1])
    apply (rule conjI [OF p2])
    apply (rule conjI [OF p3])
    apply (rule conjI [OF split])
    apply (rule conjI [OF node0_second_run])
    apply (rule res)
    done
qed

subsection \<open>Abandoning the logs\<close>

lemma fold_release: "fold release nodes s = s\<lparr>free_list := rev nodes @ free_list s\<rparr>"
  by (induction nodes arbitrary: s) (simp_all add: release_def)

lemma abandon_thread_logs_result:
  "abandon_thread_logs ts free = (ts', free') \<Longrightarrow>
     map fst ts' = map fst ts \<and>
     list_all (\<lambda>(t, q). dq_buffer q = None \<and> dq_stats q = zero_stats) ts' \<and>
     mset free' = mset free + mset (List.map_filter (\<lambda>(t, q). dq_buffer q) ts)"
proof (induction ts free arbitrary: ts' free' rule: abandon_thread_logs.induct)
  case (1 free)
  then show ?case by (simp add: map_filter_simps)
next
  case (2 t q ts free)
  define free1 where "free1 = (case dq_buffer q of None \<Rightarrow> free | Some node \<Rightarrow> node # free)"
  obtain ts1 free2 where rec: "abandon_thread_logs ts free1 = (ts1, free2)"
    by (cases "abandon_thread_logs ts free1")
  from "2.prems" rec have eq: "ts' = (t, q\<lparr>dq_buffer := None, dq_stats := zero_stats\<rparr>) # ts1"
    "free' = free2"
    by (simp_all add: free1_def)
  note ih = "2.IH" [OF rec [unfolded free1_def]]
  have m: "mset free1 = mset free + mset (List.map_filter (\<lambda>(t, q). dq_buffer q) [(t, q)])"
    by (cases "dq_buffer q") (simp_all add: free1_def map_filter_simps)
  have mf: "List.map_filter (\<lambda>(t, q). dq_buffer q) ((t, q) # ts) =
      List.map_filter (\<lambda>(t, q). dq_buffer q) [(t, q)] @ List.map_filter (\<lambda>(t, q). dq_buffer q) ts"
    by (cases "dq_buffer q") (simp_all add: map_filter_simps)
  from ih m show ?case
    unfolding eq mf by (simp add: free1_def)
qed

lemma enqueue_all_paused_buffers_result:
  "enqueue_all_paused_buffers s = s\<lparr>completed := completed s @ paused_nodes s, paused := None\<rparr>"
  by (cases "paused s")
    (simp_all add: enqueue_all_paused_buffers_def take_all_def enqueue_paused_buffers_aux_def
      paused_nodes_def)

lemma abandon_completed_buffers_result:
  "abandon_completed_buffers s =
     s\<lparr>completed := [], paused := None, num_cards := 0,
       free_list := rev (completed s @ paused_nodes s) @ free_list s\<rparr>"
  by (simp add: abandon_completed_buffers_def take_all_completed_buffers_def Let_def
      enqueue_all_paused_buffers_result fold_release)

text \<open>
  Claim C3. At a safepoint \<open>abandon_logs_and_stats\<close> returns a state in which
  \<open>num_cards\<close> is zero, the completed queue is empty, there is no paused list, the same
  threads are attached and each is without a buffer and has its statistics reset, and
  both global statistics records are reset. The free list then holds, besides what it
  held, exactly the buffers that were in the completed queue, on the paused list and in
  the threads' queues.
\<close>

theorem abandon_resets:
  assumes "at_safepoint s"
  shows "\<exists>s'. abandon_logs_and_stats s = Some s' \<and>
     num_cards s' = 0 \<and> completed s' = [] \<and> paused s' = None \<and>
     map fst (threads s') = map fst (threads s) \<and>
     list_all (\<lambda>(t, q). dq_buffer q = None \<and> dq_stats q = zero_stats) (threads s') \<and>
     concatenated_refinement_stats s' = zero_stats \<and>
     detached_refinement_stats s' = zero_stats \<and>
     mset (free_list s') =
       mset (free_list s) + mset (completed s) + mset (paused_nodes s) + mset (thread_buffers s)"
proof -
  obtain ts free where a: "abandon_thread_logs (threads s) (free_list s) = (ts, free)"
    by (cases "abandon_thread_logs (threads s) (free_list s)")
  note r = abandon_thread_logs_result [OF a]
  have "abandon_logs_and_stats s =
      Some (s\<lparr>threads := ts, completed := [], paused := None, num_cards := 0,
              free_list := rev (completed s @ paused_nodes s) @ free,
              concatenated_refinement_stats := zero_stats,
              detached_refinement_stats := zero_stats\<rparr>)"
    using assms a
    by (simp add: abandon_logs_and_stats_def abandon_completed_buffers_result paused_nodes_def)
  with r show ?thesis by (simp add: thread_buffers_def)
qed

theorem abandon_resets_witness:
  "at_safepoint qs0 \<and> num_cards qs0 = 3 \<and>
   (\<exists>s'. abandon_logs_and_stats qs0 = Some s' \<and>
      num_cards s' = 0 \<and> completed s' = [] \<and> paused s' = None \<and>
      map fst (threads s') = [1, 2] \<and>
      concatenated_refinement_stats s' = zero_stats \<and>
      detached_refinement_stats s' = zero_stats \<and>
      mset (free_list s') = {#node_a, node_b, node_c#})"
proof -
  have sp: "at_safepoint qs0" by (simp add: qs0_def)
  have m: "mset (free_list qs0) + mset (completed qs0) + mset (paused_nodes qs0) +
      mset (thread_buffers qs0) = {#node_a, node_b, node_c#}"
    by (simp add: qs0_def paused_nodes_def thread_buffers_def map_filter_simps)
  have t: "map fst (threads qs0) = [1, 2]" and n: "num_cards qs0 = 3"
    by (simp_all add: qs0_def)
  from abandon_resets [OF sp] obtain s' where
    "abandon_logs_and_stats qs0 = Some s'" "num_cards s' = 0" "completed s' = []"
    "paused s' = None" "map fst (threads s') = map fst (threads qs0)"
    "concatenated_refinement_stats s' = zero_stats" "detached_refinement_stats s' = zero_stats"
    "mset (free_list s') = mset (free_list qs0) + mset (completed qs0) + mset (paused_nodes qs0) +
      mset (thread_buffers qs0)"
    by blast
  with sp m t n show ?thesis by simp
qed

section \<open>Conservation of card pointers\<close>

lemma cards_of_simps [simp]:
  "cards_of [] = {#}"
  "cards_of (node # nodes) = mset (live_cards node) + cards_of nodes"
  "cards_of (xs @ ys) = cards_of xs + cards_of ys"
  by (simp_all add: cards_of_def)

lemma threads_cards_simps [simp]:
  "threads_cards [] = {#}"
  "threads_cards ((t, q) # ts) = queue_cards q + threads_cards ts"
  by (simp_all add: threads_cards_def)









lemma paused_nodes_simps [simp]:
  "paused_nodes (s\<lparr>paused := None\<rparr>) = []"
  "paused_nodes (s\<lparr>completed := x\<rparr>) = paused_nodes s"
  "paused_nodes (s\<lparr>num_cards := n\<rparr>) = paused_nodes s"
  "paused_nodes (s\<lparr>free_list := f\<rparr>) = paused_nodes s"
  "paused_nodes (s\<lparr>threads := ts\<rparr>) = paused_nodes s"
  "paused_nodes (s\<lparr>at_safepoint := a\<rparr>) = paused_nodes s"
  "paused_nodes (s\<lparr>concatenated_refinement_stats := st\<rparr>) = paused_nodes s"
  by (simp_all add: paused_nodes_def)













lemma pool_threads_update [simp]: "pool (s\<lparr>threads := ts\<rparr>) = pool s"
  by (simp add: pool_def)

lemma pool_concatenated_update [simp]: "pool (s\<lparr>concatenated_refinement_stats := st\<rparr>) = pool s"
  by (simp add: pool_def)

lemma pool_at_safepoint_update [simp]: "pool (s\<lparr>at_safepoint := a\<rparr>) = pool s"
  by (simp add: pool_def)


















end
